theory Spec2Isabelle
  imports Complex_Main "HOL-Library.Log_Nat"
begin

section \<open>The running coach: pattern analysis and recommendations\<close>

text \<open>
  A shallow embedding of \<^verbatim>\<open>data_analyzer.py\<close> (class \<^verbatim>\<open>SimpleAnalyzer\<close>) and
  \<^verbatim>\<open>ai_coach.py\<close> (class \<^verbatim>\<open>FreeAICoach\<close>).  Python's unbounded \<^verbatim>\<open>int\<close> is
  \<^typ>\<open>int\<close>; a \<^verbatim>\<open>str\<close> is a \<^typ>\<open>string\<close> whose characters stand for code points
  below 256; a \<^verbatim>\<open>dict\<close> is an association list in insertion order, because
  \<^verbatim>\<open>max\<close>, \<^verbatim>\<open>sorted\<close> and \<^verbatim>\<open>Counter.most_common\<close> break ties by that order;
  a raised exception is the left summand of a result.  A Python \<^verbatim>\<open>float\<close> is
  represented by the rational number it denotes, and every floating-point
  operation rounds its exact result to binary64 (see below).
\<close>

subsection \<open>Binary64 arithmetic\<close>

text \<open>
  Round to nearest, ties to even, with a 53-bit significand.  The exponent is
  not bounded: overflow and subnormal numbers need magnitudes of \<open>2\<^sup>1\<^sup>0\<^sup>2\<^sup>4\<close> and
  above or below \<open>2\<^sup>-\<^sup>1\<^sup>0\<^sup>2\<^sup>2\<close>, which minute counts, list lengths and day spans do
  not reach.
\<close>

definition round_half_even :: "rat \<Rightarrow> int" where
  "round_half_even q =
     (let f = \<lfloor>q\<rfloor>; d = q - of_int f
      in if d < 1 / 2 then f
         else if 1 / 2 < d then f + 1
         else if even f then f else f + 1)"

text \<open>For \<open>x > 0\<close>, \<open>expo x\<close> is the integer \<open>e\<close> with \<open>2\<^sup>e \<le> x < 2\<^sup>e\<^sup>+\<^sup>1\<close>.\<close>

definition expo :: "rat \<Rightarrow> int" where
  "expo x =
     (let (p, q) = quotient_of x; e0 = bitlen p - bitlen q
      in if power_int 2 e0 \<le> x then e0 else e0 - 1)"

definition to_double :: "rat \<Rightarrow> rat" where
  "to_double x =
     (if x = 0 then 0
      else let u = power_int 2 (expo \<bar>x\<bar> - 52)
           in of_int (round_half_even (x / u)) * u)"

text \<open>\<^verbatim>\<open>float(n)\<close> for an \<^verbatim>\<open>int\<close>, and the value of a decimal literal such as \<^verbatim>\<open>0.8\<close>.\<close>

definition float_of_int :: "int \<Rightarrow> rat" where
  "float_of_int n = to_double (of_int n)"

definition float_literal :: "rat \<Rightarrow> rat" where
  "float_literal q = to_double q"

text \<open>\<^verbatim>\<open>x * y\<close> and \<^verbatim>\<open>x / y\<close> on floats (the callers never divide by zero).\<close>

definition fmul :: "rat \<Rightarrow> rat \<Rightarrow> rat" where
  "fmul x y = to_double (x * y)"

definition fdiv :: "rat \<Rightarrow> rat \<Rightarrow> rat" where
  "fdiv x y = to_double (x / y)"

definition fsub :: "rat \<Rightarrow> rat \<Rightarrow> rat" where
  "fsub x y = to_double (x - y)"

text \<open>\<^verbatim>\<open>a / b\<close> on two \<^verbatim>\<open>int\<close>s: the correctly rounded quotient.\<close>

definition int_truediv :: "int \<Rightarrow> int \<Rightarrow> rat" where
  "int_truediv a b = to_double (of_int a / of_int b)"

text \<open>\<^verbatim>\<open>round(x)\<close> with one argument, and \<^verbatim>\<open>int(x)\<close>, on a float.\<close>

definition py_round :: "rat \<Rightarrow> int" where
  "py_round x = round_half_even x"

definition py_trunc :: "rat \<Rightarrow> int" where
  "py_trunc x = (if 0 \<le> x then \<lfloor>x\<rfloor> else \<lceil>x\<rceil>)"

subsection \<open>Strings\<close>

datatype error = ValueError

definition digit_char :: "nat \<Rightarrow> char" where
  "digit_char d = char_of (48 + d)"

fun str_nat :: "nat \<Rightarrow> string" where
  "str_nat n = (if n < 10 then [digit_char n] else str_nat (n div 10) @ [digit_char (n mod 10)])"

declare str_nat.simps [simp del]

text \<open>\<^verbatim>\<open>str(n)\<close>, which is also what an f-string field \<^verbatim>\<open>{n}\<close> prints.\<close>

definition str_int :: "int \<Rightarrow> string" where
  "str_int n = (if n < 0 then CHR ''-'' # str_nat (nat (- n)) else str_nat (nat n))"

text \<open>The format \<^verbatim>\<open>{n:02d}\<close>: zero-padded to width two, the sign counted in the width.\<close>

definition fmt_02d :: "int \<Rightarrow> string" where
  "fmt_02d n = (if 0 \<le> n \<and> n < 10 then CHR ''0'' # str_int n else str_int n)"

definition is_digit :: "char \<Rightarrow> bool" where
  "is_digit c = (48 \<le> (of_char c :: nat) \<and> (of_char c :: nat) \<le> 57)"

definition digit_val :: "char \<Rightarrow> nat" where
  "digit_val c = of_char c - 48"

text \<open>The white space that \<^verbatim>\<open>str.strip\<close> and \<^verbatim>\<open>int\<close> skip, among the code points below 256.\<close>

definition is_space :: "char \<Rightarrow> bool" where
  "is_space c =
     (let n = (of_char c :: nat)
      in (9 \<le> n \<and> n \<le> 13) \<or> (28 \<le> n \<and> n \<le> 32) \<or> n = 133 \<or> n = 160)"

definition py_strip :: "string \<Rightarrow> string" where
  "py_strip s = rev (dropWhile is_space (rev (dropWhile is_space s)))"

text \<open>
  The digits of a decimal literal as \<^verbatim>\<open>int(s)\<close> reads them: a single underscore
  may separate two digits.
\<close>

fun py_digits :: "nat \<Rightarrow> string \<Rightarrow> nat option" where
  "py_digits acc [] = Some acc"
| "py_digits acc (c # cs) =
     (if is_digit c then py_digits (10 * acc + digit_val c) cs
      else if c = CHR ''_'' then
        (case cs of
           [] \<Rightarrow> None
         | d # ds \<Rightarrow> if is_digit d then py_digits acc cs else None)
      else None)"

definition py_unsigned :: "string \<Rightarrow> error + int" where
  "py_unsigned s =
     (case s of
        [] \<Rightarrow> Inl ValueError
      | c # cs \<Rightarrow>
          if is_digit c then
            (case py_digits 0 s of None \<Rightarrow> Inl ValueError | Some n \<Rightarrow> Inr (int n))
          else Inl ValueError)"

text \<open>\<^verbatim>\<open>int(s)\<close> on a string, base ten.\<close>

definition py_int :: "string \<Rightarrow> error + int" where
  "py_int s =
     (case py_strip s of
        [] \<Rightarrow> Inl ValueError
      | c # cs \<Rightarrow>
          if c = CHR ''-'' then
            (case py_unsigned cs of Inl e \<Rightarrow> Inl e | Inr n \<Rightarrow> Inr (- n))
          else if c = CHR ''+'' then py_unsigned cs
          else py_unsigned (c # cs))"

text \<open>\<^verbatim>\<open>s.split(':')[0]\<close>: the part before the first colon, the whole string without one.\<close>

definition split_colon_0 :: "string \<Rightarrow> string" where
  "split_colon_0 s = takeWhile (\<lambda>c. c \<noteq> CHR '':'') s"

text \<open>\<^verbatim>\<open>sep.join(xs)\<close>.\<close>

fun py_join :: "string \<Rightarrow> string list \<Rightarrow> string" where
  "py_join sep [] = []"
| "py_join sep [x] = x"
| "py_join sep (x # y # ys) = x @ sep @ py_join sep (y # ys)"





subsection \<open>Dictionaries in insertion order\<close>

text \<open>\<^verbatim>\<open>d[k] += 1\<close> on a \<^verbatim>\<open>Counter\<close> or a \<^verbatim>\<open>defaultdict(int)\<close>: a new key goes last.\<close>

fun bump :: "'k \<Rightarrow> ('k \<times> int) list \<Rightarrow> ('k \<times> int) list" where
  "bump k [] = [(k, 1)]"
| "bump k ((k', c) # kvs) = (if k = k' then (k', c + 1) # kvs else (k', c) # bump k kvs)"

definition Counter :: "'k list \<Rightarrow> ('k \<times> int) list" where
  "Counter xs = foldl (\<lambda>d x. bump x d) [] xs"

text \<open>
  The loop of the built-in \<^verbatim>\<open>max(items, key=...)\<close>: the running best is replaced
  only by a strictly larger key, so the first maximal item wins.
  \<^verbatim>\<open>Counter.most_common(1)\<close> is this \<^verbatim>\<open>max\<close> with the count as key.
\<close>

fun max_from :: "('a \<Rightarrow> int) \<Rightarrow> 'a \<Rightarrow> 'a list \<Rightarrow> 'a" where
  "max_from key best [] = best"
| "max_from key best (x # xs) = max_from key (if key best < key x then x else best) xs"

subsection \<open>Data model\<close>

text \<open>
  An activity as \<^verbatim>\<open>get_athlete_activities\<close> builds it.  The field \<open>date\<close> is the day
  number (proleptic Gregorian ordinal) of the ISO date that
  \<^verbatim>\<open>datetime.fromisoformat\<close> reads: the analyzer only compares dates and
  subtracts them in whole days.
\<close>

record activity =
  date :: int
  start_time :: string
  duration_minutes :: int
  distance_km :: rat
  start_hour :: int
  weekday :: string
  average_speed :: "rat option"

record time_patterns =
  most_common_time :: string
  time_distribution :: "(string \<times> int) list"

record weekly_pattern =
  favorite_days :: "string list"
  runs_per_week :: int
  day_counts :: "(string \<times> int) list option"

record patterns =
  time_patterns :: time_patterns
  avg_duration :: int
  weekly_pattern :: weekly_pattern

record context_info =
  today :: string
  time_now :: string
  last_run_days_ago :: int

record recommendation =
  time :: string
  duration :: int
  intensity :: string
  insight :: string
  motivation :: string
  confidence :: "rat option"
  ai_used :: "bool option"
  model :: "string option"

subsection \<open>\<^verbatim>\<open>SimpleAnalyzer\<close>\<close>

definition band :: "int \<Rightarrow> string" where
  "band hour =
     (if hour < 6 then ''early_morning''
      else if hour < 12 then ''morning''
      else if hour < 17 then ''afternoon''
      else if hour < 21 then ''evening''
      else ''night'')"

definition analyze_time_patterns :: "activity list \<Rightarrow> time_patterns" where
  "analyze_time_patterns activities =
     (if activities = [] then
        \<lparr>most_common_time = ''18:00'', time_distribution = []\<rparr>
      else
        let hours = map start_hour activities;
            hour_counts = Counter hours;
            most_common_hour =
              (case hour_counts of [] \<Rightarrow> 18 | kv # kvs \<Rightarrow> fst (max_from snd kv kvs));
            distribution = foldl (\<lambda>d hour. bump (band hour) d) [] hours
        in \<lparr>most_common_time = fmt_02d most_common_hour @ '':00'',
            time_distribution = distribution\<rparr>)"

text \<open>
  \<^verbatim>\<open>statistics.mean\<close> on \<^verbatim>\<open>int\<close>s computes the exact quotient and returns it as an
  \<^verbatim>\<open>int\<close> when it is whole, as the nearest float otherwise.
\<close>

definition statistics_mean :: "int list \<Rightarrow> rat" where
  "statistics_mean xs =
     (let q = of_int (sum_list xs) / of_nat (length xs)
      in if of_int \<lfloor>q\<rfloor> = q then q else to_double q)"

definition calculate_avg_duration :: "activity list \<Rightarrow> int" where
  "calculate_avg_duration activities =
     (if activities = [] then 30
      else py_round (statistics_mean (map duration_minutes activities)))"

text \<open>
  \<^verbatim>\<open>sorted(..., key=lambda x: x[1], reverse=True)\<close> is stable: items of equal count
  keep their order, which is what the stable \<^const>\<open>sort_key\<close> on the negated count does.
\<close>

definition detect_weekly_pattern :: "activity list \<Rightarrow> weekly_pattern" where
  "detect_weekly_pattern activities =
     (if activities = [] then
        \<lparr>favorite_days = [''Tuesday'', ''Thursday''], runs_per_week = 3, day_counts = None\<rparr>
      else
        let weekdays = map weekday activities;
            counts = Counter weekdays;
            sorted_days = sort_key (\<lambda>x. - snd x) counts;
            favorites = map fst (take 3 sorted_days);
            dates = map date activities;
            per_week =
              (if dates \<noteq> [] then
                 let date_range = Max (set dates) - Min (set dates) + 1;
                     weeks = int_truediv date_range 7
                 in if 0 < weeks
                    then py_round (fdiv (float_of_int (int (length activities))) weeks)
                    else int (length activities)
               else 3)
        in \<lparr>favorite_days = favorites, runs_per_week = per_week, day_counts = Some counts\<rparr>)"

text \<open>
  The rule-based recommendation.  \<^verbatim>\<open>int(...)\<close> on the hour of \<open>time_now\<close> and of
  the recommended time raises \<^verbatim>\<open>ValueError\<close> on a string that is no number.
\<close>

definition generate_rule_based_recommendation ::
  "patterns \<Rightarrow> context_info \<Rightarrow> error + recommendation" where
  "generate_rule_based_recommendation pats context =
     (let tp = time_patterns pats;
          avg = avg_duration pats;
          wp = weekly_pattern pats;
          current_day = today context
      in case py_int (split_colon_0 (time_now context)) of
           Inl e \<Rightarrow> Inl e
         | Inr current_hour \<Rightarrow>
             let (recommended_time, conf) =
                   (if current_day \<in> set (favorite_days wp)
                    then (most_common_time tp, float_literal (8 / 10))
                    else (most_common_time tp, float_literal (6 / 10)))
             in (case py_int (split_colon_0 recommended_time) of
                  Inl e \<Rightarrow> Inl e
                | Inr rec_hour \<Rightarrow>
                    let recommended_time =
                          (if rec_hour < current_hour
                           then ''tomorrow '' @ recommended_time else recommended_time);
                        time_dist = time_distribution tp;
                        max_period =
                          (case time_dist of
                             [] \<Rightarrow> ''evening''
                           | kv # kvs \<Rightarrow> fst (max_from snd kv kvs));
                        insight_text =
                          ''You typically run '' @ str_int (runs_per_week wp)
                            @ '' times per week, ''
                            @ ''mostly in the '' @ max_period @ '' around ''
                            @ most_common_time tp;
                        motivation_text =
                          (if current_day \<in> set (favorite_days wp)
                           then current_day
                                  @ '' is one of your favorite running days - stay consistent!''
                           else ''Mix it up today! Your usual days are ''
                                  @ py_join '', '' (take 2 (favorite_days wp)));
                        (intensity_text, avg) =
                          (if 3 < last_run_days_ago context
                           then (''easy'',
                                 py_trunc (fmul (float_of_int avg) (float_literal (8 / 10))))
                           else if last_run_days_ago context = 0
                           then (''easy'',
                                 py_trunc (fmul (float_of_int avg) (float_literal (7 / 10))))
                           else (''moderate'', avg))
                    in Inr \<lparr>time = recommended_time,
                            duration = avg,
                            intensity = intensity_text,
                            insight = insight_text,
                            motivation = motivation_text,
                            confidence = Some conf,
                            ai_used = None,
                            model = None\<rparr>))"

text \<open>
  The library functions on floats that only shape the text of the weekly
  insights are parameters: the built-in \<^verbatim>\<open>sum\<close> over floats, \<^verbatim>\<open>round(x, 1)\<close>, and
  the text that an f-string prints for a float.
\<close>

record float_lib =
  float_sum :: "rat list \<Rightarrow> rat"
  round_1 :: "rat \<Rightarrow> rat"
  float_str :: "rat \<Rightarrow> string"

record metrics =
  total_distance_km :: rat
  total_time_hours :: rat
  average_pace_min_per_km :: rat
  average_distance_km :: rat
  average_duration_min :: int
  longest_run_km :: rat
  total_runs :: int

text \<open>The empty dictionary that the source returns for no activities is \<open>None\<close>.\<close>

definition calculate_performance_metrics :: "float_lib \<Rightarrow> activity list \<Rightarrow> metrics option" where
  "calculate_performance_metrics lib activities =
     (if activities = [] then None
      else
        let total_distance = float_sum lib (map distance_km activities);
            total_time = sum_list (map duration_minutes activities);
            avg_pace =
              (if 0 < total_distance then fdiv (float_of_int total_time) total_distance else 0);
            distances = map distance_km activities;
            durations = map duration_minutes activities
        in Some \<lparr>total_distance_km = round_1 lib total_distance,
                 total_time_hours = round_1 lib (int_truediv total_time 60),
                 average_pace_min_per_km = (if 0 < total_distance then round_1 lib avg_pace else 0),
                 average_distance_km =
                   round_1 lib (to_double (sum_list distances / of_nat (length distances))),
                 average_duration_min = py_round (statistics_mean durations),
                 longest_run_km = round_1 lib (Max (set distances)),
                 total_runs = int (length activities)\<rparr>)"

record weekly_insights =
  insights :: "string list"
  weekly_ai_used :: bool
  weekly_model :: "string option"

definition generate_weekly_insights :: "float_lib \<Rightarrow> activity list \<Rightarrow> weekly_insights" where
  "generate_weekly_insights lib activities =
     (let metrics = calculate_performance_metrics lib activities;
          pats = detect_weekly_pattern activities;
          ins = [];
          ins =
            (case metrics of
               None \<Rightarrow> ins
             | Some m \<Rightarrow>
                 if 0 < total_runs m then
                   ins @ [''You've completed '' @ str_int (total_runs m) @ '' runs totaling ''
                            @ float_str lib (total_distance_km m) @ ''km in ''
                            @ float_str lib (total_time_hours m) @ '' hours'']
                 else ins);
          ins =
            (if favorite_days pats \<noteq> [] then
               ins @ [''Your most consistent running days are ''
                        @ py_join '' and '' (take 2 (favorite_days pats))]
             else ins);
          ins =
            (case metrics of
               None \<Rightarrow> ins
             | Some m \<Rightarrow>
                 if 0 < average_pace_min_per_km m then
                   let pace = average_pace_min_per_km m;
                       mins = py_trunc pace;
                       secs = py_trunc (fmul (fsub pace (float_of_int mins)) (float_of_int 60))
                   in ins @ [''Your average pace is '' @ str_int mins @ '':'' @ fmt_02d secs
                               @ '' per kilometer'']
                 else ins)
      in \<lparr>insights = take 3 ins, weekly_ai_used = False, weekly_model = Some ''rule-based''\<rparr>)"

subsection \<open>\<^verbatim>\<open>FreeAICoach\<close>\<close>



text \<open>
  The outside world.  A call of the model either raises or yields the text of
  the first choice; \<^verbatim>\<open>json.loads\<close> on that text raises \<^verbatim>\<open>JSONDecodeError\<close>, or
  yields a dictionary (kept abstract, type \<open>'d\<close>), or yields some other JSON
  value, on which the item assignment \<^verbatim>\<open>r["ai_used"] = True\<close> raises
  \<^verbatim>\<open>TypeError\<close>.  The prompt only feeds the call and is not modelled.
\<close>

datatype completion = Raises | Content string

datatype 'd loaded = JSONDecodeError | Dict 'd | NonDict







text \<open>
  \<^verbatim>\<open>analyze_weekly_patterns\<close> returns insights built here or the model's
  dictionary with \<^verbatim>\<open>ai_used\<close> set; its inner handler is a bare \<^verbatim>\<open>except\<close>, which
  also takes the \<^verbatim>\<open>TypeError\<close> of a value that is no dictionary.
\<close>

datatype 'd weekly = Insights weekly_insights | Tagged_weekly 'd bool

definition analyze_weekly_patterns ::
  "float_lib \<Rightarrow> (string \<Rightarrow> 'd loaded) \<Rightarrow> completion \<Rightarrow> activity list \<Rightarrow> nat \<times> 'd weekly" where
  "analyze_weekly_patterns lib json_loads response activities =
     (if activities = [] then
        (0, Insights \<lparr>insights = [''No activity data available''],
                      weekly_ai_used = False, weekly_model = None\<rparr>)
      else
        (1,
         case response of
           Raises \<Rightarrow> Insights (generate_weekly_insights lib activities)
         | Content c \<Rightarrow>
             let content = py_strip c
             in (case json_loads content of
                   Dict d \<Rightarrow> Tagged_weekly d True
                 | _ \<Rightarrow> Insights \<lparr>insights = [take 200 content],
                                   weekly_ai_used = True, weekly_model = None\<rparr>)))"

subsection \<open>Sample inputs\<close>

text \<open>Concrete inputs on which the theorems below are instantiated.\<close>

definition run_monday :: activity where
  "run_monday =
     \<lparr>date = 738000, start_time = ''07:30'', duration_minutes = 90, distance_km = 5,
      start_hour = 7, weekday = ''Monday'', average_speed = None\<rparr>"




text \<open>
  The formula for \<open>runs_per_week\<close> in the words of the specification: the count
  divided by \<open>max(1, date_span_days / 7)\<close> and rounded, where \<open>date_span_days\<close> is
  the largest date minus the smallest plus one; the count itself when the span
  is zero or negative; 3 for the empty list.
\<close>

definition spec_runs_per_week :: "activity list \<Rightarrow> int" where
  "spec_runs_per_week activities =
     (if activities = [] then 3
      else
        let count = int (length activities);
            dates = map date activities;
            date_span_days = Max (set dates) - Min (set dates) + 1
        in if date_span_days \<le> 0 then count
           else py_round (fdiv (float_of_int count) (max 1 (int_truediv date_span_days 7))))"

definition run_saturday :: activity where
  "run_saturday =
     \<lparr>date = 737998, start_time = ''18:05'', duration_minutes = 91, distance_km = 10,
      start_hour = 18, weekday = ''Saturday'', average_speed = None\<rparr>"



section \<open>Properties\<close>

subsection \<open>Rounding\<close>

lemma round_half_even_of_int: "round_half_even (of_int k) = k"
  by (simp add: round_half_even_def)

lemma round_half_even_near: "\<bar>of_int (round_half_even q) - q\<bar> \<le> 1 / 2"
proof -
  have f: "of_int \<lfloor>q\<rfloor> \<le> q" "q < of_int \<lfloor>q\<rfloor> + 1" by linarith+
  show ?thesis
    unfolding round_half_even_def Let_def using f
    by (auto simp: abs_le_iff)
qed

lemma round_half_even_eqI:
  assumes "of_int j - 1 / 2 < q" "q < of_int j + 1 / 2"
  shows "round_half_even q = j"
proof -
  have "\<lfloor>q\<rfloor> = j \<or> \<lfloor>q\<rfloor> = j - 1" using assms by linarith
  then show ?thesis
  proof
    assume "\<lfloor>q\<rfloor> = j"
    moreover have "q - of_int j < 1/2" using assms by linarith
    ultimately show ?thesis by (simp add: round_half_even_def)
  next
    assume f: "\<lfloor>q\<rfloor> = j - 1"
    have "1/2 < q - of_int (j - 1)" using assms by simp
    with f show ?thesis by (simp add: round_half_even_def)
  qed
qed

lemma round_half_even_ge:
  assumes "of_int k \<le> x" shows "k \<le> round_half_even x"
proof -
  have "k \<le> \<lfloor>x\<rfloor>" using assms by (simp add: le_floor_iff)
  moreover have "\<lfloor>x\<rfloor> \<le> round_half_even x"
    by (simp add: round_half_even_def Let_def)
  ultimately show ?thesis by simp
qed

lemma round_half_even_le:
  assumes "x \<le> of_int k" shows "round_half_even x \<le> k"
proof (cases "x = of_int k")
  case True then show ?thesis by (simp add: round_half_even_of_int)
next
  case False
  then have "x < of_int k" using assms by simp
  then have "\<lfloor>x\<rfloor> < k" by (simp add: floor_less_iff)
  then have "\<lfloor>x\<rfloor> + 1 \<le> k" by simp
  moreover have "round_half_even x \<le> \<lfloor>x\<rfloor> + 1"
    by (simp add: round_half_even_def Let_def)
  ultimately show ?thesis by simp
qed

lemma expo_bounds:
  assumes "0 < x"
  shows "power_int 2 (expo x) \<le> x \<and> x < power_int 2 (expo x + 1)"
proof -
  obtain p q where pq: "quotient_of x = (p, q)" by (cases "quotient_of x")
  have q0: "0 < q" using pq by (rule quotient_of_denom_pos)
  have x: "x = of_int p / of_int q" using pq by (rule quotient_of_div)
  have p0: "0 < p" using assms q0 x by (simp add: zero_less_divide_iff)
  define np where "np = nat (bitlen p - 1)"
  define nq where "nq = nat (bitlen q - 1)"
  define A :: rat where "A = 2 ^ np"
  define B :: rat where "B = 2 ^ nq"
  define P :: rat where "P = of_int p"
  define Q :: rat where "Q = of_int q"
  have bp1: "1 \<le> bitlen p" using p0 by (simp add: bitlen_alt_def)
  have bq1: "1 \<le> bitlen q" using q0 by (simp add: bitlen_alt_def)
  have bp: "bitlen p = int np + 1" using bp1 unfolding np_def by linarith
  have bq: "bitlen q = int nq + 1" using bq1 unfolding nq_def by linarith
  have sp: "nat (bitlen p) = Suc np" using bp1 unfolding np_def by linarith
  have "2 ^ np \<le> p" "p < 2 ^ Suc np"
    using bitlen_bounds[OF p0] by (simp_all only: sp np_def)
  then have P: "A \<le> P" "P < 2 * A"
    unfolding A_def P_def by (metis of_int_le_iff of_int_numeral of_int_power, 
       metis of_int_less_iff of_int_numeral of_int_power power_Suc)
  have sq: "nat (bitlen q) = Suc nq" using bq1 unfolding nq_def by linarith
  have "2 ^ nq \<le> q" "q < 2 ^ Suc nq"
    using bitlen_bounds[OF q0] by (simp_all only: sq nq_def)
  then have Q: "B \<le> Q" "Q < 2 * B"
    unfolding B_def Q_def by (metis of_int_le_iff of_int_numeral of_int_power, 
       metis of_int_less_iff of_int_numeral of_int_power power_Suc)
  have A0: "0 < A" and B0: "0 < B" by (simp_all add: A_def B_def)
  have Q0: "0 < Q" using q0 by (simp add: Q_def)
  have xPQ: "x = P / Q" using x by (simp add: P_def Q_def)
  define e0 where "e0 = bitlen p - bitlen q"
  have e0: "e0 = int np - int nq" by (simp add: e0_def bp bq)
  have pw: "(power_int 2 e0 :: rat) = A / B"
    unfolding e0 A_def B_def by (simp add: power_int_diff)
  have pw1: "(power_int 2 (e0 + 1) :: rat) = 2 * A / B"
    using pw by (simp add: power_int_add)
  have pwm: "(power_int 2 (e0 - 1) :: rat) = A / (2 * B)"
    using pw by (simp add: power_int_diff)
  have up: "x < 2 * A / B"
  proof -
    have "P * B < (2 * A) * B" using P(2) B0 by (rule mult_strict_right_mono)
    also have "(2 * A) * B \<le> (2 * A) * Q" using Q(1) A0 by (intro mult_left_mono) simp_all
    finally have "P * B < 2 * A * Q" .
    then show ?thesis using B0 Q0 by (simp add: xPQ field_simps)
  qed
  have lo: "A / (2 * B) \<le> x"
  proof -
    have "A * Q \<le> A * (2 * B)" using Q(2) A0 by (intro mult_left_mono) simp_all
    also have "A * (2 * B) \<le> P * (2 * B)" using P(1) B0 by (intro mult_right_mono) simp_all
    finally have "A * Q \<le> P * (2 * B)" .
    then show ?thesis using B0 Q0 by (simp add: xPQ field_simps)
  qed
  have ex: "expo x = (if power_int 2 e0 \<le> x then e0 else e0 - 1)"
    by (simp add: expo_def pq e0_def)
  show ?thesis
  proof (cases "power_int 2 e0 \<le> x")
    case True
    then show ?thesis using ex up pw1 by simp
  next
    case False
    then show ?thesis using ex lo pwm by simp
  qed
qed


lemma to_double_error:
  assumes "x \<noteq> 0"
  shows "\<bar>to_double x - x\<bar> \<le> power_int 2 (expo \<bar>x\<bar> - 53)"
proof -
  define u :: rat where "u = power_int 2 (expo \<bar>x\<bar> - 52)"
  have u0: "0 < u" by (simp add: u_def)
  have td: "to_double x = of_int (round_half_even (x / u)) * u"
    using assms by (simp add: to_double_def u_def Let_def)
  have "to_double x - x = (of_int (round_half_even (x / u)) - x / u) * u"
    using u0 by (simp add: td field_simps)
  then have "\<bar>to_double x - x\<bar> = \<bar>of_int (round_half_even (x / u)) - x / u\<bar> * u"
    using u0 by (simp add: abs_mult)
  also have "\<dots> \<le> (1 / 2) * u"
    using round_half_even_near [of "x / u"] u0 by (intro mult_right_mono) simp_all
  also have "(1 / 2) * u = power_int 2 (expo \<bar>x\<bar> - 53)"
    by (simp add: u_def power_int_diff)
  finally show ?thesis .
qed

lemma to_double_relative_error:
  "\<bar>to_double x - x\<bar> \<le> \<bar>x\<bar> / 2 ^ 53"
proof (cases "x = 0")
  case True
  then show ?thesis by (simp add: to_double_def)
next
  case False
  then have "0 < \<bar>x\<bar>" by simp
  then have "power_int 2 (expo \<bar>x\<bar>) \<le> \<bar>x\<bar>" using expo_bounds by blast
  then have "power_int 2 (expo \<bar>x\<bar>) / 2 ^ 53 \<le> \<bar>x\<bar> / 2 ^ 53"
    by (simp add: divide_right_mono)
  moreover have "(power_int 2 (expo \<bar>x\<bar> - 53) :: rat) = power_int 2 (expo \<bar>x\<bar>) / 2 ^ 53"
    by (simp add: power_int_diff)
  ultimately show ?thesis using to_double_error [OF False] by simp
qed

lemma to_double_exact:
  assumes x0: "x \<noteq> 0"
    and mag: "\<bar>x\<bar> < 2 ^ 53 * power_int 2 m"
    and mul: "x = of_int k * power_int 2 m"
  shows "to_double x = x"
proof -
  define e where "e = expo \<bar>x\<bar>"
  define u :: rat where "u = power_int 2 (e - 52)"
  have u0: "0 < u" by (simp add: u_def)
  have "power_int 2 e \<le> \<bar>x\<bar>" using x0 expo_bounds [of "\<bar>x\<bar>"] by (simp add: e_def)
  then have "(power_int 2 e :: rat) < power_int 2 (53 + m)"
    using mag by (simp add: power_int_add)
  then have "e < 53 + m"
    using power_int_increasing [of "53 + m" e "2::rat"] by (cases "e < 53 + m") simp_all
  then have "0 \<le> m - (e - 52)" by simp
  then obtain j :: nat where "m - (e - 52) = int j" by (rule nonneg_int_cases)
  then have j: "m = e - 52 + int j" by simp
  have "power_int (2::rat) m = u * 2 ^ j"
    unfolding j u_def by (simp add: power_int_add)
  then have "x / u = of_int (k * 2 ^ j)"
    using u0 by (simp add: mul)
  then have "round_half_even (x / u) = k * 2 ^ j"
    by (simp only: round_half_even_of_int)
  then have "to_double x = of_int (k * 2 ^ j) * u"
    using x0 by (simp add: to_double_def u_def e_def Let_def)
  also have "\<dots> = x" using \<open>x / u = of_int (k * 2 ^ j)\<close> u0 by (simp add: field_simps)
  finally show ?thesis .
qed

lemma to_double_of_int:
  assumes "\<bar>a\<bar> < 2 ^ 53"
  shows "to_double (of_int a) = of_int a"
proof (cases "a = 0")
  case True
  then show ?thesis by (simp add: to_double_def)
next
  case False
  have "\<bar>of_int a :: rat\<bar> < 2 ^ 53"
    using assms by (metis of_int_abs of_int_less_iff of_int_numeral of_int_power)
  then show ?thesis
    using False to_double_exact [of "of_int a" 0 a] by simp
qed

lemma to_double_pos:
  assumes "0 < x"
  shows "0 < to_double x"
proof -
  define u :: rat where "u = power_int 2 (expo \<bar>x\<bar> - 52)"
  have u0: "0 < u" by (simp add: u_def)
  have "power_int 2 (expo \<bar>x\<bar>) \<le> x" using assms expo_bounds [of x] by simp
  then have "u * 2 ^ 52 \<le> x" by (simp add: u_def power_int_diff)
  then have "of_int 1 \<le> x / u" using u0 by (simp add: field_simps)
  then have "1 \<le> round_half_even (x / u)" by (rule round_half_even_ge)
  then have "0 < (of_int (round_half_even (x / u)) :: rat)" by simp
  then show ?thesis using assms u0 by (simp add: to_double_def u_def Let_def)
qed

subsection \<open>Counting dictionaries\<close>

lemma sum_bump: "sum_list (map snd (bump k d)) = sum_list (map snd d) + 1"
  by (induction d) auto

lemma sum_foldl_bump:
  "sum_list (map snd (foldl (\<lambda>d x. bump (f x) d) d0 xs)) = sum_list (map snd d0) + int (length xs)"
  by (induction xs arbitrary: d0) (simp_all add: sum_bump)

lemma keys_bump: "fst ` set (bump k d) = insert k (fst ` set d)"
proof (induction d)
  case Nil
  show ?case by simp
next
  case (Cons kv d)
  obtain k' c where kv: "kv = (k', c)" by (cases kv)
  show ?case
  proof (cases "k = k'")
    case True
    then show ?thesis by (simp add: kv)
  next
    case False
    then show ?thesis using Cons.IH by (simp add: kv insert_commute)
  qed
qed

lemma keys_foldl_bump:
  "fst ` set (foldl (\<lambda>d x. bump (f x) d) d0 xs) = fst ` set d0 \<union> f ` set xs"
  by (induction xs arbitrary: d0) (auto simp: keys_bump)

lemma distinct_bump: "distinct (map fst d) \<Longrightarrow> distinct (map fst (bump k d))"
  by (induction d) (auto simp: keys_bump)

lemma distinct_foldl_bump:
  "distinct (map fst d0) \<Longrightarrow> distinct (map fst (foldl (\<lambda>d x. bump (f x) d) d0 xs))"
  by (induction xs arbitrary: d0) (simp_all add: distinct_bump)

lemma band_cases:
  "band h \<in> {''early_morning'', ''morning'', ''afternoon'', ''evening'', ''night''}"
  by (simp add: band_def)

subsection \<open>Printing and reading integers\<close>













subsection \<open>The claims\<close>

text \<open>
  C9.  For every activity list, the counts in the \<open>time_distribution\<close> that
  \<open>analyze_time_patterns\<close> returns add up to the length of the list; its keys are
  pairwise different and are among the five bands, so every start hour is counted
  under exactly one band; the empty list gives the empty distribution.
\<close>

theorem time_distribution_sums_to_length:
  "sum_list (map snd (time_distribution (analyze_time_patterns activities)))
     = int (length activities)
   \<and> distinct (map fst (time_distribution (analyze_time_patterns activities)))
   \<and> fst ` set (time_distribution (analyze_time_patterns activities))
       \<subseteq> {''early_morning'', ''morning'', ''afternoon'', ''evening'', ''night''}
   \<and> time_distribution (analyze_time_patterns []) = []"
proof -
  have "fst ` set (foldl (\<lambda>d hour. bump (band hour) d) [] (map start_hour activities))
          \<subseteq> {''early_morning'', ''morning'', ''afternoon'', ''evening'', ''night''}"
    unfolding keys_foldl_bump using band_cases by auto
  then show ?thesis
    by (simp add: analyze_time_patterns_def Let_def sum_foldl_bump distinct_foldl_bump)
qed

text \<open>
  C10.  For the empty activity list \<open>analyze_weekly_patterns\<close> makes no call to the
  model and returns the single insight "No activity data available" with
  \<open>ai_used\<close> false and no \<open>model\<close> entry, whereas the rule-based
  \<open>generate_weekly_insights\<close> always sets \<open>model\<close> to "rule-based".
\<close>

theorem analyze_weekly_patterns_empty:
  "analyze_weekly_patterns lib json_loads response []
     = (0, Insights \<lparr>insights = [''No activity data available''],
                      weekly_ai_used = False, weekly_model = None\<rparr>)
   \<and> weekly_model (generate_weekly_insights lib activities) = Some ''rule-based''
   \<and> weekly_ai_used (generate_weekly_insights lib activities) = False"
  by (simp add: analyze_weekly_patterns_def generate_weekly_insights_def Let_def)

lemma keys_Counter: "fst ` set (Counter xs) = set xs"
  using keys_foldl_bump [of "\<lambda>x. x" "[]" xs] by (simp add: Counter_def)

text \<open>
  C7.  For every activity list \<open>detect_weekly_pattern\<close> returns at most three
  favorite days; for a non-empty list each of them is the weekday of some
  activity of the list; for the empty list they are exactly Tuesday and Thursday.
\<close>

theorem favorite_days_at_most_three:
  "length (favorite_days (detect_weekly_pattern activities)) \<le> 3
   \<and> (activities \<noteq> [] \<longrightarrow>
        set (favorite_days (detect_weekly_pattern activities)) \<subseteq> weekday ` set activities)
   \<and> favorite_days (detect_weekly_pattern []) = [''Tuesday'', ''Thursday'']"
proof -
  have "set (map fst (take 3 (sort_key (\<lambda>x. - snd x) (Counter (map weekday activities)))))
          \<subseteq> fst ` set (sort_key (\<lambda>x. - snd x) (Counter (map weekday activities)))"
    using set_take_subset [of 3 "sort_key (\<lambda>x. - snd x) (Counter (map weekday activities))"]
    by auto
  also have "\<dots> = weekday ` set activities"
    by (simp add: keys_Counter)
  finally show ?thesis
    by (simp add: detect_weekly_pattern_def Let_def)
qed

theorem favorite_days_at_most_three_witness:
  "[run_monday] \<noteq> []
   \<and> set (favorite_days (detect_weekly_pattern [run_monday])) \<subseteq> weekday ` set [run_monday]
   \<and> favorite_days (detect_weekly_pattern [run_monday]) = [''Monday'']"
proof -
  have "favorite_days (detect_weekly_pattern [run_monday]) = [''Monday'']"
    by (simp add: detect_weekly_pattern_def Let_def Counter_def run_monday_def)
  then show ?thesis
    using favorite_days_at_most_three [of "[run_monday]"] by simp
qed

















lemma date_span_positive:
  assumes "activities \<noteq> []"
  shows "1 \<le> Max (set (map date activities)) - Min (set (map date activities)) + 1"
proof -
  obtain a where a: "a \<in> set (map date activities)"
    using assms by (cases activities) auto
  have "Min (set (map date activities)) \<le> a" using a by (intro Min_le) simp_all
  moreover have "a \<le> Max (set (map date activities))" using a by (intro Max_ge) simp_all
  ultimately have "Min (set (map date activities)) \<le> Max (set (map date activities))"
    by simp
  then show ?thesis by simp
qed

lemma int_truediv_pos: "0 < a \<Longrightarrow> 0 < b \<Longrightarrow> 0 < int_truediv a b"
  unfolding int_truediv_def by (rule to_double_pos) simp

text \<open>
  C1 as the code has it.  For a non-empty list the day span is at least one,
  so the test \<^verbatim>\<open>weeks > 0\<close> always succeeds, and \<open>runs_per_week\<close> is the count
  divided by \<open>span / 7\<close> and rounded, both divisions in binary64 and the rounding
  half to even; the divisor is not raised to 1 when the span is shorter than a
  week.  For the empty list \<open>runs_per_week\<close> is 3.
\<close>

theorem runs_per_week_unclamped:
  "(activities \<noteq> [] \<longrightarrow>
      1 \<le> Max (set (map date activities)) - Min (set (map date activities)) + 1
      \<and> runs_per_week (detect_weekly_pattern activities)
          = py_round (fdiv (float_of_int (int (length activities)))
              (int_truediv
                 (Max (set (map date activities)) - Min (set (map date activities)) + 1) 7)))
   \<and> runs_per_week (detect_weekly_pattern []) = 3"
proof -
  have "runs_per_week (detect_weekly_pattern activities)
          = py_round (fdiv (float_of_int (int (length activities)))
              (int_truediv
                 (Max (set (map date activities)) - Min (set (map date activities)) + 1) 7))"
    if ne: "activities \<noteq> []"
  proof -
    have "0 < Max (set (map date activities)) - Min (set (map date activities)) + 1"
      using date_span_positive [OF ne] by simp
    then have "0 < int_truediv
                 (Max (set (map date activities)) - Min (set (map date activities)) + 1) 7"
      by (rule int_truediv_pos) simp
    then show ?thesis using ne by (simp add: detect_weekly_pattern_def Let_def)
  qed
  then show ?thesis
    using date_span_positive [of activities] by (simp add: detect_weekly_pattern_def)
qed

lemma runs_per_week_run_monday: "runs_per_week (detect_weekly_pattern [run_monday]) = 7"
  by code_simp

lemma spec_runs_per_week_run_monday: "spec_runs_per_week [run_monday] = 1"
  by code_simp

text \<open>
  C1 as the specification words it fails on a single activity: the span is one
  day, \<open>max(1, 1/7)\<close> is 1 and the formula gives 1 run per week, where the code
  divides by \<open>1/7\<close> and returns 7.
\<close>

theorem runs_per_week_clamp_counterexample:
  "runs_per_week (detect_weekly_pattern [run_monday]) = 7
   \<and> spec_runs_per_week [run_monday] = 1
   \<and> runs_per_week (detect_weekly_pattern [run_monday]) \<noteq> spec_runs_per_week [run_monday]"
  by (simp add: runs_per_week_run_monday spec_runs_per_week_run_monday)

theorem runs_per_week_unclamped_witness:
  "[run_monday] \<noteq> []
   \<and> Max (set (map date [run_monday])) - Min (set (map date [run_monday])) + 1 = 1
   \<and> py_round (fdiv (float_of_int (int (length [run_monday]))) (int_truediv 1 7)) = 7
   \<and> runs_per_week (detect_weekly_pattern [run_monday]) = 7"
proof -
  have a: "py_round (fdiv (float_of_int (int (length [run_monday]))) (int_truediv 1 7)) = 7"
    by code_simp
  show ?thesis
    using runs_per_week_unclamped [of "[run_monday]"] a by simp
qed

lemma round_half_even_strict:
  assumes "q - of_int \<lfloor>q\<rfloor> \<noteq> 1 / 2"
  shows "of_int (round_half_even q) - 1 / 2 < q \<and> q < of_int (round_half_even q) + 1 / 2"
proof -
  have f: "of_int \<lfloor>q\<rfloor> \<le> q" "q < of_int \<lfloor>q\<rfloor> + 1" by linarith+
  show ?thesis
  proof (cases "q - of_int \<lfloor>q\<rfloor> < 1 / 2")
    case True
    then have e: "round_half_even q = \<lfloor>q\<rfloor>" by (simp add: round_half_even_def)
    show ?thesis unfolding e using True f by linarith
  next
    case False
    then have g: "1 / 2 < q - of_int \<lfloor>q\<rfloor>" using assms by simp
    then have e: "round_half_even q = \<lfloor>q\<rfloor> + 1" by (simp add: round_half_even_def)
    show ?thesis unfolding e using g f by simp
  qed
qed

lemma round_of_rounded_quotient:
  fixes S :: int and n :: nat
  assumes n: "0 < n" and S: "\<bar>S\<bar> < 2 ^ 52"
  defines "q \<equiv> (of_int S / of_nat n :: rat)"
  shows "round_half_even (to_double q) = round_half_even q"
proof (cases "q - of_int \<lfloor>q\<rfloor> = 1 / 2")
  case True
  define N :: rat where "N = of_nat n"
  have N1: "1 \<le> N" using n by (simp add: N_def)
  have "\<bar>q\<bar> = \<bar>of_int S\<bar> / N" using N1 by (simp add: q_def N_def)
  also have "\<dots> \<le> \<bar>of_int S\<bar>"
  proof -
    have "1 * \<bar>of_int S :: rat\<bar> \<le> N * \<bar>of_int S\<bar>" using N1 by (intro mult_right_mono) simp_all
    then show ?thesis using N1 by (simp add: field_simps)
  qed
  also have "\<dots> < 2 ^ 52" using S by (metis of_int_abs of_int_less_iff of_int_numeral of_int_power)
  finally have mag: "\<bar>q\<bar> < 2 ^ 53 * power_int 2 (- 1)" by (simp add: power_int_minus)
  have qk: "q = of_int (2 * \<lfloor>q\<rfloor> + 1) * power_int 2 (- 1)"
    using True by (simp add: power_int_minus field_simps)
  have q0: "q \<noteq> 0" using True by auto
  have "to_double q = q" using q0 mag qk by (rule to_double_exact)
  then show ?thesis by simp
next
  case False
  define N :: rat where "N = of_nat n"
  define j where "j = round_half_even q"
  have N0: "0 < N" and N1: "1 \<le> N" using n by (simp_all add: N_def)
  have qN: "q * N = of_int S" using N0 by (simp add: q_def N_def)
  have strict: "of_int j - 1 / 2 < q" "q < of_int j + 1 / 2"
    using round_half_even_strict [OF False] by (simp_all add: j_def)
  have absq: "\<bar>q\<bar> * N < 2 ^ 52"
  proof -
    have "\<bar>q\<bar> * N = \<bar>of_int S\<bar>" using N0 qN by (metis abs_mult abs_of_pos)
    also have "\<dots> < 2 ^ 52" using S by (metis of_int_abs of_int_less_iff of_int_numeral of_int_power)
    finally show ?thesis .
  qed
  have err: "\<bar>to_double q - q\<bar> < 1 / (2 * N)"
  proof -
    have "\<bar>q\<bar> / 2 ^ 53 < 1 / (2 * N)"
      using absq N0 by (simp add: field_simps)
    then show ?thesis using to_double_relative_error [of q] by linarith
  qed
  have lo: "of_int j - 1 / 2 + 1 / (2 * N) \<le> q"
  proof -
    have "2 * of_int j - 1 < 2 * q" using strict(1) by simp
    then have "(2 * of_int j - 1) * N < (2 * q) * N" using N0 by (rule mult_strict_right_mono)
    also have "(2 * q) * N = 2 * of_int S" using qN by simp
    finally have "(2 * of_int j - 1) * N < 2 * of_int S" .
    then have "(of_int ((2 * j - 1) * int n) :: rat) < of_int (2 * S)"
      by (simp add: N_def)
    then have "(2 * j - 1) * int n < 2 * S" by (simp only: of_int_less_iff)
    then have "(2 * j - 1) * int n + 1 \<le> 2 * S" by simp
    then have "(of_int ((2 * j - 1) * int n + 1) :: rat) \<le> of_int (2 * S)"
      by (simp only: of_int_le_iff)
    then have "(2 * of_int j - 1) * N + 1 \<le> 2 * (q * N)"
      by (simp add: N_def qN [symmetric, unfolded N_def])
    then show ?thesis using N0 by (simp add: field_simps)
  qed
  have hi: "q \<le> of_int j + 1 / 2 - 1 / (2 * N)"
  proof -
    have "2 * q < 2 * of_int j + 1" using strict(2) by simp
    then have "(2 * q) * N < (2 * of_int j + 1) * N" using N0 by (rule mult_strict_right_mono)
    moreover have "(2 * q) * N = 2 * of_int S" using qN by simp
    ultimately have "2 * of_int S < (2 * of_int j + 1) * N" by simp
    then have "(of_int (2 * S) :: rat) < of_int ((2 * j + 1) * int n)"
      by (simp add: N_def)
    then have "2 * S < (2 * j + 1) * int n" by (simp only: of_int_less_iff)
    then have "2 * S + 1 \<le> (2 * j + 1) * int n" by simp
    then have "(of_int (2 * S + 1) :: rat) \<le> of_int ((2 * j + 1) * int n)"
      by (simp only: of_int_le_iff)
    then have "2 * (q * N) + 1 \<le> (2 * of_int j + 1) * N"
      by (simp add: N_def qN [symmetric, unfolded N_def])
    then show ?thesis using N0 by (simp add: field_simps)
  qed
  have "of_int j - 1 / 2 < to_double q" "to_double q < of_int j + 1 / 2"
    using err lo hi by linarith+
  then have "round_half_even (to_double q) = j" by (rule round_half_even_eqI)
  then show ?thesis by (simp add: j_def)
qed

text \<open>
  C6.  For a non-empty list \<open>calculate_avg_duration\<close> is the exact mean of the
  \<open>duration_minutes\<close> rounded to the nearest integer, a half always going to the
  even neighbour; for the empty list it is 30.  The mean of a list that does not
  divide evenly passes through a binary64 float before it is rounded; the
  hypothesis that the minutes sum to less than \<open>2\<^sup>5\<^sup>2\<close> in magnitude keeps that
  float on the same side of every half as the exact mean.
\<close>

theorem avg_duration_is_rounded_mean:
  "(activities \<noteq> [] \<longrightarrow> \<bar>sum_list (map duration_minutes activities)\<bar> < 2 ^ 52 \<longrightarrow>
      calculate_avg_duration activities
        = round_half_even (of_int (sum_list (map duration_minutes activities))
                             / of_nat (length activities)))
   \<and> calculate_avg_duration [] = 30"
proof -
  have "calculate_avg_duration activities
        = round_half_even (of_int (sum_list (map duration_minutes activities))
                             / of_nat (length activities))"
    if ne: "activities \<noteq> []" and S: "\<bar>sum_list (map duration_minutes activities)\<bar> < 2 ^ 52"
  proof -
    have n: "0 < length activities" using ne by simp
    show ?thesis
      using round_of_rounded_quotient [OF n S] ne
      by (simp add: calculate_avg_duration_def statistics_mean_def py_round_def Let_def)
  qed
  then show ?thesis by (simp add: calculate_avg_duration_def)
qed

lemma sum_two_runs: "sum_list (map duration_minutes [run_monday, run_saturday]) = 181"
  by (simp add: run_monday_def run_saturday_def)

lemma round_half_even_181_2: "round_half_even (181 / 2) = 90"
  by code_simp

theorem avg_duration_is_rounded_mean_witness:
  "[run_monday, run_saturday] \<noteq> []
   \<and> \<bar>sum_list (map duration_minutes [run_monday, run_saturday])\<bar> < 2 ^ 52
   \<and> calculate_avg_duration [run_monday, run_saturday] = 90"
proof -
  have a: "[run_monday, run_saturday] \<noteq> []" by simp
  have b: "\<bar>sum_list (map duration_minutes [run_monday, run_saturday])\<bar> < 2 ^ 52"
    by (simp only: sum_two_runs) simp
  have "calculate_avg_duration [run_monday, run_saturday]
          = round_half_even (of_int (sum_list (map duration_minutes [run_monday, run_saturday]))
                               / of_nat (length [run_monday, run_saturday]))"
    using avg_duration_is_rounded_mean [of "[run_monday, run_saturday]"] a b by blast
  also have "\<dots> = round_half_even (181 / 2)"
    by (simp only: sum_two_runs) simp
  finally show ?thesis using a b round_half_even_181_2 by simp
qed

text \<open>The three literals of the rule-based recommendation, as binary64 numbers.\<close>

lemma float_literal_0_8: "float_literal (8 / 10) = 3602879701896397 / 2 ^ 52"
  by code_simp

lemma float_literal_0_7: "float_literal (7 / 10) = 6305039478318694 / 2 ^ 53"
  by code_simp

lemma float_literal_0_6: "float_literal (6 / 10) = 5404319552844595 / 2 ^ 53"
  by code_simp

text \<open>
  Multiplying a duration below \<open>2\<^sup>5\<^sup>0\<close> by the literal \<^verbatim>\<open>0.8\<close> and truncating gives
  exactly the floor of eight tenths: \<^verbatim>\<open>0.8\<close> is stored slightly above four fifths,
  so the product never falls below a whole number that it should reach.
\<close>

lemma to_double_between:
  fixes k :: int
  assumes p0: "0 < p" and small: "p < 2 ^ 50"
    and lo: "of_int k \<le> p" and hi: "p \<le> of_int k + 17 / 20"
  shows "of_int k \<le> to_double p \<and> to_double p < of_int k + 1"
proof -
  define e where "e = expo p"
  have eb: "power_int 2 e \<le> p" using p0 expo_bounds [of p] by (simp add: e_def)
  then have "(power_int 2 e :: rat) < power_int 2 50" using small by simp
  then have e50: "e < 50"
    using power_int_increasing [of 50 e "2::rat"] by (cases "e < 50") simp_all
  define m where "m = nat (52 - e)"
  have m3: "3 \<le> m" using e50 by (simp add: m_def)
  have em: "e - 52 = - int m" using e50 by (simp add: m_def)
  define U :: rat where "U = 2 ^ m"
  have U8: "8 \<le> U"
  proof -
    have "(2::rat) ^ 3 \<le> 2 ^ m" using m3 by (intro power_increasing) simp_all
    then show ?thesis by (simp add: U_def)
  qed
  have U0: "0 < U" using U8 by simp
  have "(power_int 2 (e - 52) :: rat) = power_int 2 (- int m)" by (simp only: em)
  also have "\<dots> = 1 / U" by (simp add: U_def power_int_minus field_simps)
  finally have u: "(power_int 2 (expo p - 52) :: rat) = 1 / U" by (simp only: e_def)
  have td: "to_double p = of_int (round_half_even (p * U)) / U"
    using p0 by (simp add: to_double_def Let_def u)
  have "of_int (k * 2 ^ m) \<le> p * U"
    using lo U0 by (simp add: U_def)
  then have a: "k * 2 ^ m \<le> round_half_even (p * U)" by (rule round_half_even_ge)
  have "p * U \<le> (of_int k + 17 / 20) * U"
    using hi U0 by (intro mult_right_mono) simp_all
  also have "\<dots> = (of_int k + 1) * U - (3 / 20) * U" by (simp add: algebra_simps)
  also have "\<dots> \<le> (of_int k + 1) * U - 1" using U8 by simp
  finally have "p * U \<le> of_int ((k + 1) * 2 ^ m - 1)" by (simp add: U_def)
  then have b: "round_half_even (p * U) \<le> (k + 1) * 2 ^ m - 1" by (rule round_half_even_le)
  have a': "of_int k * U \<le> of_int (round_half_even (p * U))"
  proof -
    have "(of_int (k * 2 ^ m) :: rat) \<le> of_int (round_half_even (p * U))"
      using a by (simp only: of_int_le_iff)
    then show ?thesis by (simp add: U_def)
  qed
  have b': "of_int (round_half_even (p * U)) < (of_int k + 1) * U"
  proof -
    have "(of_int (round_half_even (p * U)) :: rat) \<le> of_int ((k + 1) * 2 ^ m - 1)"
      using b by (simp only: of_int_le_iff)
    then show ?thesis by (simp add: U_def)
  qed
  show ?thesis using a' b' U0 by (simp add: td field_simps)
qed

lemma eight_tenths_truncated:
  assumes "0 \<le> a" "a < 2 ^ 50"
  shows "py_trunc (fmul (float_of_int a) (float_literal (8 / 10))) = \<lfloor>of_int a * (8 / 10 :: rat)\<rfloor>"
proof (cases "a = 0")
  case True
  then show ?thesis
    by (simp add: py_trunc_def fmul_def float_of_int_def to_double_def)
next
  case False
  then have a1: "1 \<le> a" using assms by simp
  define A :: rat where "A = of_int a"
  have A1: "1 \<le> A" using a1 by (simp add: A_def)
  have A50: "A < 2 ^ 50"
    using assms(2) unfolding A_def by (metis of_int_less_iff of_int_numeral of_int_power)
  have "\<bar>a\<bar> < 2 ^ 53" using assms by simp
  then have fa: "float_of_int a = A" by (simp add: float_of_int_def to_double_of_int A_def)
  define p :: rat where "p = A * (3602879701896397 / 2 ^ 52)"
  have p: "p = A * (4 / 5) + A / (5 * 2 ^ 52)" by (simp add: p_def)
  define k where "k = \<lfloor>A * (4 / 5)\<rfloor>"
  have k5: "k = (4 * a) div 5"
  proof -
    have "A * (4 / 5) = of_int (4 * a) / of_int 5" by (simp add: A_def)
    then show ?thesis unfolding k_def by (simp only: floor_divide_of_int_eq)
  qed
  have frac: "A * (4 / 5) \<le> of_int k + 4 / 5"
  proof -
    have "4 * a = 5 * k + (4 * a) mod 5" using k5 by simp
    moreover have "(4 * a) mod 5 \<le> 4" by simp
    ultimately have "4 * a \<le> 5 * k + 4" by linarith
    then have "(of_int (4 * a) :: rat) \<le> of_int (5 * k + 4)" by (simp only: of_int_le_iff)
    then show ?thesis by (simp add: A_def)
  qed
  have lo: "of_int k \<le> p"
  proof -
    have "of_int k \<le> A * (4 / 5)" unfolding k_def by (rule of_int_floor_le)
    moreover have "0 \<le> A / (5 * 2 ^ 52)" using A1 by simp
    ultimately show ?thesis using p by linarith
  qed
  have hi: "p \<le> of_int k + 17 / 20"
  proof -
    have "A / (5 * 2 ^ 52) \<le> 1 / 20" using A50 by simp
    then show ?thesis using p frac by linarith
  qed
  have p0: "0 < p" using A1 by (simp add: p_def)
  have "p \<le> A" using A1 by (simp add: p_def)
  then have small: "p < 2 ^ 50" using A50 by simp
  have bt: "of_int k \<le> to_double p \<and> to_double p < of_int k + 1"
    using p0 small lo hi by (rule to_double_between)
  have k0: "0 \<le> k" using A1 by (simp add: k_def)
  then have "(0::rat) \<le> of_int k" by simp
  then have "0 \<le> to_double p" using bt by linarith
  moreover have "\<lfloor>to_double p\<rfloor> = k" using bt by linarith
  ultimately have "py_trunc (to_double p) = k" by (simp add: py_trunc_def)
  moreover have "\<lfloor>of_int a * (8 / 10 :: rat)\<rfloor> = k" by (simp add: k_def A_def)
  moreover have "fmul (float_of_int a) (float_literal (8 / 10)) = to_double p"
    unfolding fmul_def fa float_literal_0_8 p_def by (rule refl)
  ultimately show ?thesis by (simp only:)
qed

text \<open>
  The intensity policy as the code computes it: the three branches in their
  order, the two shortened durations being the truncated binary64 products.
\<close>

lemma intensity_policy:
  assumes "py_int (split_colon_0 (time_now context)) = Inr current_hour"
    and "py_int (split_colon_0 (most_common_time (time_patterns pats))) = Inr rec_hour"
  shows "\<exists>r. generate_rule_based_recommendation pats context = Inr r
           \<and> (intensity r, duration r) =
               (if 3 < last_run_days_ago context
                then (''easy'',
                      py_trunc (fmul (float_of_int (avg_duration pats)) (float_literal (8 / 10))))
                else if last_run_days_ago context = 0
                then (''easy'',
                      py_trunc (fmul (float_of_int (avg_duration pats)) (float_literal (7 / 10))))
                else (''moderate'', avg_duration pats))"
  using assms by (simp add: generate_rule_based_recommendation_def Let_def split: prod.splits)


end
